theory Spec2Isabelle
  imports Main "HOL-Library.Word"
begin

section \<open>Strings of the source language\<close>

text \<open>
  A TypeScript string is a sequence of UTF-16 code units. Indexing (\<open>formula[i]\<close>),
  \<open>length\<close>, \<open>split('')\<close>, \<open>charAt\<close> and \<open>substring\<close> all count code units, so a
  string is modelled as a list of 16-bit words. The subscript glyphs U+2080..U+2089 are
  one code unit each.
\<close>

type_synonym jschar = "16 word"
type_synonym jsstring = "jschar list"

text \<open>An ASCII literal of the source, written as an Isabelle string.\<close>

definition js :: "string \<Rightarrow> jsstring" where
  "js s = map of_char s"

text \<open>
  \<open>c.match(/[a-zA-Z]/)\<close> and \<open>c.match(/[0-9]/)\<close> for a one-unit string \<open>c\<close>: the
  character classes have no flag, so they hold of the ASCII ranges only.
\<close>

definition matches_alpha :: "jschar \<Rightarrow> bool" where
  "matches_alpha c = ((0x61 \<le> c \<and> c \<le> 0x7A) \<or> (0x41 \<le> c \<and> c \<le> 0x5A))"

definition matches_digit :: "jschar \<Rightarrow> bool" where
  "matches_digit c = (0x30 \<le> c \<and> c \<le> 0x39)"

text \<open>
  \<open>String.prototype.toUpperCase\<close> and \<open>toLowerCase\<close>, one code unit at a time, for the
  code units below U+0100 (Basic Latin and Latin-1 Supplement), following the Unicode
  case mappings: sharp s becomes \<open>SS\<close>, the micro sign and y with diaeresis leave
  Latin-1. Code units from U+0100 on are outside this model and are returned as they
  are; no result below depends on them.
\<close>

definition toUpperCase_unit :: "jschar \<Rightarrow> jsstring" where
  "toUpperCase_unit c =
     (if 0x61 \<le> c \<and> c \<le> 0x7A then [c - 0x20]
      else if c = 0xB5 then [0x39C]
      else if c = 0xDF then [0x53, 0x53]
      else if 0xE0 \<le> c \<and> c \<le> 0xFE \<and> c \<noteq> 0xF7 then [c - 0x20]
      else if c = 0xFF then [0x178]
      else [c])"

definition toLowerCase_unit :: "jschar \<Rightarrow> jsstring" where
  "toLowerCase_unit c =
     (if 0x41 \<le> c \<and> c \<le> 0x5A then [c + 0x20]
      else if 0xC0 \<le> c \<and> c \<le> 0xDE \<and> c \<noteq> 0xD7 then [c + 0x20]
      else [c])"

definition toUpperCase :: "jsstring \<Rightarrow> jsstring" where
  "toUpperCase s = concat (map toUpperCase_unit s)"

definition toLowerCase :: "jsstring \<Rightarrow> jsstring" where
  "toLowerCase s = concat (map toLowerCase_unit s)"

text \<open>\<open>s.charAt(i)\<close>: the empty string out of range.\<close>

definition charAt :: "jsstring \<Rightarrow> nat \<Rightarrow> jsstring" where
  "charAt s i = (if i < length s then [s ! i] else [])"

text \<open>\<open>s.substring(a, b)\<close> on non-negative integers: both ends are clamped to the
  length and swapped when out of order.\<close>

definition substring :: "jsstring \<Rightarrow> nat \<Rightarrow> nat \<Rightarrow> jsstring" where
  "substring s a b =
     (let a' = min a (length s); b' = min b (length s)
      in take (max a' b' - min a' b') (drop (min a' b') s))"

section \<open>The element table and the subscript map\<close>

definition ELEMENTS :: "jsstring list" where
  "ELEMENTS = map js
    [''Ac'', ''Ag'', ''Al'', ''Am'', ''Ar'', ''As'', ''At'', ''Au'', ''B'', ''Ba'', ''Be'', ''Bh'', ''Bi'',
     ''Bk'', ''Br'', ''C'', ''Ca'', ''Cd'', ''Ce'', ''Cf'', ''Cl'', ''Cm'', ''Cn'', ''Co'', ''Cr'', ''Cs'',
     ''Cu'', ''Db'', ''Ds'', ''Dy'', ''Er'', ''Es'', ''Eu'', ''F'', ''Fe'', ''Fl'', ''Fm'', ''Fr'', ''Ga'',
     ''Gd'', ''Ge'', ''H'', ''He'', ''Hf'', ''Hg'', ''Ho'', ''Hs'', ''I'', ''In'', ''Ir'', ''K'', ''Kr'',
     ''La'', ''Li'', ''Lr'', ''Lu'', ''Lv'', ''Md'', ''Mg'', ''Mn'', ''Mo'', ''Mt'', ''N'', ''Na'', ''Nb'',
     ''Nd'', ''Ne'', ''Ni'', ''No'', ''Np'', ''O'', ''Os'', ''P'', ''Pa'', ''Pb'', ''Pd'', ''Pm'', ''Po'',
     ''Pr'', ''Pt'', ''Pu'', ''Ra'', ''Rb'', ''Re'', ''Rf'', ''Rg'', ''Rh'', ''Rn'', ''Ru'', ''S'', ''Sb'',
     ''Sc'', ''Se'', ''Sg'', ''Si'', ''Sm'', ''Sn'', ''Sr'', ''Ta'', ''Tb'', ''Tc'', ''Te'', ''Th'', ''Ti'',
     ''Tl'', ''Tm'', ''U'', ''V'', ''W'', ''Xe'', ''Y'', ''Yb'', ''Zn'', ''Zr'']"

text \<open>\<open>SUBSCRIPT_MAP\<close>: the keys are the one-unit strings \<open>'0'\<close> to \<open>'9'\<close>, the values
  the one-unit strings U+2080 to U+2089.\<close>

definition SUBSCRIPT_MAP :: "(jsstring \<times> jsstring) list" where
  "SUBSCRIPT_MAP =
    [(js ''0'', [0x2080]), (js ''1'', [0x2081]), (js ''2'', [0x2082]), (js ''3'', [0x2083]),
     (js ''4'', [0x2084]), (js ''5'', [0x2085]), (js ''6'', [0x2086]), (js ''7'', [0x2087]),
     (js ''8'', [0x2088]), (js ''9'', [0x2089])]"

text \<open>
  \<open>numStr.split('').map((c) => SUBSCRIPT_MAP[c] || c).join('')\<close>: \<open>split('')\<close> gives the
  one-unit strings, \<open>||\<close> takes \<open>c\<close> when the lookup is undefined or the empty string,
  \<open>join('')\<close> concatenates.
\<close>

definition split_units :: "jsstring \<Rightarrow> jsstring list" where
  "split_units s = map (\<lambda>u. [u]) s"

definition subscript_or_self :: "jsstring \<Rightarrow> jsstring" where
  "subscript_or_self c =
     (case map_of SUBSCRIPT_MAP c of
        None \<Rightarrow> c
      | Some g \<Rightarrow> (if g = [] then c else g))"

definition toSubscript :: "jsstring \<Rightarrow> jsstring" where
  "toSubscript numStr = concat (map subscript_or_self (split_units numStr))"

section \<open>The enumerator \<open>getAllFormulas\<close>\<close>

text \<open>
  The digit loop, written three times in the source with the same body:
  \<^verbatim>\<open>while (digitIndex < formula.length && formula[digitIndex].match(/[0-9]/)) {
    num += formula[digitIndex]; digitIndex += 1; }\<close>
  It returns the collected digits and the index where it stopped.
\<close>

function collectDigits :: "jsstring \<Rightarrow> nat \<Rightarrow> jsstring \<Rightarrow> jsstring \<times> nat" where
  "collectDigits formula digitIndex num =
     (if digitIndex < length formula \<and> matches_digit (formula ! digitIndex)
      then collectDigits formula (digitIndex + 1) (num @ [formula ! digitIndex])
      else (num, digitIndex))"
  by pat_completeness auto
termination
  by (relation "measure (\<lambda>(formula, digitIndex, num). length formula - digitIndex)") auto

declare collectDigits.simps [simp del]

text \<open>\<open>for (const rest of restResults) { results.push(item(rest)); }\<close>\<close>

fun push_each :: "(jsstring \<Rightarrow> jsstring) \<Rightarrow> jsstring list \<Rightarrow> jsstring list \<Rightarrow> jsstring list" where
  "push_each item [] results = results"
| "push_each item (rest # restResults) results = push_each item restResults (results @ [item rest])"

lemma collectDigits_index_ge:
  "collectDigits formula i num = (num', i') \<Longrightarrow> i \<le> i'"
proof (induction formula i num rule: collectDigits.induct)
  case (1 formula digitIndex num)
  then show ?case
    by (subst (asm) (2) collectDigits.simps) (auto split: if_splits)
qed

text \<open>
  The index is a natural number: the exported function is called with the default
  \<open>index = 0\<close> and calls itself with larger integers only. Every read
  \<open>formula[i]\<close> stands under the source's own bound check \<open>i < formula.length\<close>.
\<close>

function getAllFormulas :: "jsstring \<Rightarrow> nat \<Rightarrow> jsstring list" where
  "getAllFormulas formula index =
    (if index \<ge> length formula then [[]]
     else if matches_alpha (formula ! index) then
       (let results = [];
            results =
              (if index + 1 < length formula \<and> matches_alpha (formula ! (index + 1)) then
                 (let twoLetter = substring formula index (index + 2);
                      capitalized =
                        toUpperCase (charAt twoLetter 0) @ toLowerCase (charAt twoLetter 1)
                  in if capitalized \<in> set ELEMENTS then
                       (let (num, digitIndex) = collectDigits formula (index + 2) [];
                            subscript = (if num \<noteq> [] then toSubscript num else []);
                            restResults = getAllFormulas formula digitIndex
                        in push_each (\<lambda>rest. capitalized @ subscript @ rest) restResults results)
                     else results)
               else results);
            oneLetter = toUpperCase [formula ! index];
            (num, digitIndex) = collectDigits formula (index + 1) [];
            subscript = (if num \<noteq> [] then toSubscript num else []);
            restResults = getAllFormulas formula digitIndex
        in push_each (\<lambda>rest. oneLetter @ subscript @ rest) restResults results)
     else
       (let results = [];
            restResults = getAllFormulas formula (index + 1)
        in push_each (\<lambda>rest. [formula ! index] @ rest) restResults results))"
  by pat_completeness auto
termination
  by (relation "measure (\<lambda>(formula, index). length formula - index)")
     (auto dest!: collectDigits_index_ge [OF sym])

declare getAllFormulas.simps [simp del]

section \<open>The single best-guess formatter \<open>formatFormula\<close>\<close>

text \<open>
  The \<open>while (i < formula.length)\<close> loop, with the loop variables \<open>i\<close> and \<open>result\<close>
  as arguments; \<open>result.join('')\<close> concatenates the pieces.
\<close>

function formatFormula_loop :: "jsstring \<Rightarrow> nat \<Rightarrow> jsstring list \<Rightarrow> jsstring list" where
  "formatFormula_loop formula i result =
    (if i < length formula then
       (if matches_alpha (formula ! i) then
          (let (elem, i) =
                 (if i + 1 < length formula \<and> matches_alpha (formula ! (i + 1)) then
                    (let twoLetter = substring formula i (i + 2);
                         capitalized =
                           toUpperCase (charAt twoLetter 0) @ toLowerCase (charAt twoLetter 1)
                     in if capitalized \<in> set ELEMENTS then (capitalized, i + 2)
                        else (toUpperCase [formula ! i], i + 1))
                  else (toUpperCase [formula ! i], i + 1));
               result = result @ [elem];
               (num, i) = collectDigits formula i [];
               result = (if num \<noteq> [] then result @ [toSubscript num] else result)
           in formatFormula_loop formula i result)
        else formatFormula_loop formula (i + 1) (result @ [[formula ! i]]))
     else result)"
  by pat_completeness auto
termination
  by (relation "measure (\<lambda>(formula, i, result). length formula - i)")
     (auto simp: Let_def dest!: collectDigits_index_ge [OF sym] split: if_splits)

declare formatFormula_loop.simps [simp del]

definition formatFormula :: "jsstring \<Rightarrow> jsstring" where
  "formatFormula formula = concat (formatFormula_loop formula 0 [])"

section \<open>The copy operation and the history\<close>

record HistoryEntry =
  original :: jsstring
  formatted :: jsstring

datatype feedback_type = Success | Error

text \<open>
  The part of the page state that \<open>copyFormula\<close> touches: the module variable
  \<open>history\<close>, and the message and class that \<open>showFeedback\<close> last put into the feedback
  element (\<open>None\<close> before the first call). \<open>renderHistory\<close> only redraws the list from
  \<open>history\<close> and is left out.
\<close>

record app_state =
  history :: "HistoryEntry list"
  feedback :: "(jsstring \<times> feedback_type) option"

definition showFeedback :: "jsstring \<Rightarrow> feedback_type \<Rightarrow> app_state \<Rightarrow> app_state" where
  "showFeedback message type s = s\<lparr>feedback := Some (message, type)\<rparr>"

text \<open>
  \<open>await navigator.clipboard.writeText(formula)\<close> either resolves or rejects; the outcome
  is the first argument. After the \<open>await\<close> the body runs without interruption, so one
  call is one step on the state. \<open>unshift\<close> puts the entry in front, \<open>pop\<close> removes the
  last one.
\<close>

definition copyFormula :: "bool \<Rightarrow> jsstring \<Rightarrow> jsstring \<Rightarrow> app_state \<Rightarrow> app_state" where
  "copyFormula writeText_resolves original_query formula s =
     (if writeText_resolves then
        (let s = showFeedback ([0x2713] @ js '' Copied: '' @ formula) Success s;
             h = \<lparr>original = original_query, formatted = formula\<rparr> # history s;
             h = (if length h > 5 then butlast h else h)
         in s\<lparr>history := h\<rparr>)
      else showFeedback (js ''Failed to copy. Please try again.'') Error s)"

text \<open>The page starts with \<open>let history: HistoryEntry[] = []\<close>; a run of the page is a
  sequence of copy attempts, each with its outcome, query and formula.\<close>

definition initial_state :: app_state where
  "initial_state = \<lparr>history = [], feedback = None\<rparr>"

fun run_copies :: "(bool \<times> jsstring \<times> jsstring) list \<Rightarrow> app_state \<Rightarrow> app_state" where
  "run_copies [] s = s"
| "run_copies ((ok, q, f) # rest) s = run_copies rest (copyFormula ok q f s)"

text \<open>The entries of the attempts that succeeded, oldest first.\<close>

fun recorded :: "(bool \<times> jsstring \<times> jsstring) list \<Rightarrow> HistoryEntry list" where
  "recorded [] = []"
| "recorded ((ok, q, f) # rest) =
     (if ok then \<lparr>original = q, formatted = f\<rparr> # recorded rest else recorded rest)"

section \<open>Recursion equations and an induction rule for the enumerator\<close>

lemma push_each_append:
  "push_each item restResults results = results @ map item restResults"
  by (induction restResults arbitrary: results) auto

lemma substring_two:
  assumes "Suc index < length formula"
  shows "substring formula index (Suc (Suc index)) = [formula ! index, formula ! Suc index]"
proof -
  have d: "drop index formula =
      formula ! index # formula ! Suc index # drop (Suc (Suc index)) formula"
    using assms by (simp add: Cons_nth_drop_Suc)
  have "substring formula index (Suc (Suc index)) = take 2 (drop index formula)"
    using assms by (simp add: substring_def min_def max_def)
  then show ?thesis by (simp add: d)
qed

lemma capitalized_units:
  "Suc index < length formula \<Longrightarrow>
   toUpperCase (charAt (substring formula index (Suc (Suc index))) 0) @
   toLowerCase (charAt (substring formula index (Suc (Suc index))) (Suc 0)) =
   toUpperCase_unit (formula ! index) @ toLowerCase_unit (formula ! Suc index)"
  by (simp add: substring_two charAt_def toUpperCase_def toLowerCase_def)

text \<open>The body of \<open>getAllFormulas\<close> with the push loops and the local variables resolved.\<close>

lemma getAllFormulas_rec:
  "getAllFormulas formula index =
    (if length formula \<le> index then [[]]
     else if matches_alpha (formula ! index) then
       (if index + 1 < length formula \<and> matches_alpha (formula ! (index + 1)) \<and>
           toUpperCase_unit (formula ! index) @ toLowerCase_unit (formula ! (index + 1))
             \<in> set ELEMENTS
        then map (\<lambda>rest. toUpperCase_unit (formula ! index) @
                      toLowerCase_unit (formula ! (index + 1)) @
                      (if fst (collectDigits formula (index + 2) []) \<noteq> []
                       then toSubscript (fst (collectDigits formula (index + 2) [])) else []) @
                      rest)
                 (getAllFormulas formula (snd (collectDigits formula (index + 2) [])))
        else []) @
       map (\<lambda>rest. toUpperCase_unit (formula ! index) @
                    (if fst (collectDigits formula (index + 1) []) \<noteq> []
                     then toSubscript (fst (collectDigits formula (index + 1) [])) else []) @
                    rest)
           (getAllFormulas formula (snd (collectDigits formula (index + 1) [])))
     else map (\<lambda>rest. formula ! index # rest) (getAllFormulas formula (index + 1)))"
proof -
  have up: "toUpperCase [formula ! index] = toUpperCase_unit (formula ! index)"
    by (simp add: toUpperCase_def)
  show ?thesis
    by (subst getAllFormulas.simps)
       (simp add: Let_def push_each_append capitalized_units up split_beta)
qed

lemma collectDigits_snd_ge: "i \<le> snd (collectDigits formula i num)"
  using collectDigits_index_ge [of formula i num]
  by (cases "collectDigits formula i num") simp

lemma collectDigits_stop:
  "\<not> (i < length formula \<and> matches_digit (formula ! i)) \<Longrightarrow>
   collectDigits formula i num = (num, i)"
  by (subst collectDigits.simps) auto

text \<open>Induction along the calls of \<open>getAllFormulas\<close> on one formula.\<close>

lemma getAllFormulas_index_induct [consumes 0, case_names at_end other letter]:
  assumes at_end: "\<And>i. length formula \<le> i \<Longrightarrow> P i"
    and other: "\<And>i. i < length formula \<Longrightarrow> \<not> matches_alpha (formula ! i) \<Longrightarrow>
                  P (i + 1) \<Longrightarrow> P i"
    and letter: "\<And>i. i < length formula \<Longrightarrow> matches_alpha (formula ! i) \<Longrightarrow>
                   P (snd (collectDigits formula (i + 1) [])) \<Longrightarrow>
                   P (snd (collectDigits formula (i + 2) [])) \<Longrightarrow> P i"
  shows "P i"
proof (induction "length formula - i" arbitrary: i rule: less_induct)
  case less
  show ?case
  proof (cases "length formula \<le> i")
    case True
    then show ?thesis by (rule at_end)
  next
    case False
    then have lt: "i < length formula" by simp
    show ?thesis
    proof (cases "matches_alpha (formula ! i)")
      case False
      have "length formula - (i + 1) < length formula - i" using lt by simp
      then have "P (i + 1)" by (rule less)
      with lt False show ?thesis by (rule other)
    next
      case True
      have "length formula - snd (collectDigits formula (i + 1) []) < length formula - i"
        using lt collectDigits_snd_ge [of "i + 1" formula "[]"] by simp
      then have one: "P (snd (collectDigits formula (i + 1) []))" by (rule less)
      have "length formula - snd (collectDigits formula (i + 2) []) < length formula - i"
        using lt collectDigits_snd_ge [of "i + 2" formula "[]"] by simp
      then have two: "P (snd (collectDigits formula (i + 2) []))" by (rule less)
      from lt True one two show ?thesis by (rule letter)
    qed
  qed
qed

lemma getAllFormulas_nonempty: "getAllFormulas formula index \<noteq> []"
proof (induction index rule: getAllFormulas_index_induct [of formula])
  case (at_end i)
  then show ?case by (subst getAllFormulas_rec) simp
next
  case (other i)
  then show ?case by (subst getAllFormulas_rec) simp
next
  case (letter i)
  then show ?case by (subst getAllFormulas_rec) simp
qed

lemma digits_not_alpha: "matches_digit c \<Longrightarrow> \<not> matches_alpha c"
  by (auto simp: matches_digit_def matches_alpha_def word_le_nat_alt)

lemma getAllFormulas_digits_from:
  assumes "\<forall>c\<in>set formula. matches_digit c"
  shows "getAllFormulas formula index = [drop index formula]"
proof (induction index rule: getAllFormulas_index_induct [of formula])
  case (at_end i)
  then show ?case by (subst getAllFormulas_rec) simp
next
  case (other i)
  then show ?case by (subst getAllFormulas_rec) (simp add: Cons_nth_drop_Suc)
next
  case (letter i)
  then have "matches_digit (formula ! i)" using assms by simp
  with letter show ?case by (simp add: digits_not_alpha)
qed

section \<open>Letters, and the two branches at a letter\<close>

lemma unat_sub32: "(0x61::16 word) \<le> c \<Longrightarrow> unat (c - 0x20) = unat c - 32"
  by (subst unat_sub) (auto simp: word_le_nat_alt)

lemma unat_add32: "c \<le> (0x5A::16 word) \<Longrightarrow> unat (c + 0x20) = unat c + 32"
  by (subst unat_add_lem [THEN iffD1]) (auto simp: word_le_nat_alt)

lemma upper_letter:
  "matches_alpha c \<Longrightarrow> \<exists>u. toUpperCase_unit c = [u] \<and> 0x41 \<le> u \<and> u \<le> 0x5A"
  by (auto simp: matches_alpha_def toUpperCase_unit_def word_le_nat_alt unat_sub32)

lemma lower_letter:
  "matches_alpha c \<Longrightarrow> \<exists>l. toLowerCase_unit c = [l] \<and> 0x61 \<le> l \<and> l \<le> 0x7A"
  by (auto simp: matches_alpha_def toLowerCase_unit_def word_le_nat_alt unat_add32)

lemma lower_upper_differ:
  assumes "matches_alpha c"
  shows "toLowerCase_unit c @ x \<noteq> toUpperCase_unit c @ y"
proof -
  obtain u where u: "toUpperCase_unit c = [u]" "u \<le> 0x5A"
    using upper_letter [OF assms] by blast
  obtain l where l: "toLowerCase_unit c = [l]" "0x61 \<le> l"
    using lower_letter [OF assms] by blast
  have "l \<noteq> u" using u(2) l(2) by (auto simp: word_le_nat_alt)
  then show ?thesis by (simp add: u l)
qed

lemma letter_not_digit: "matches_alpha c \<Longrightarrow> \<not> matches_digit c"
  using digits_not_alpha by blast

lemma getAllFormulas_one_letter:
  assumes "index < length formula" "matches_alpha (formula ! index)"
    and "\<not> (index + 1 < length formula \<and> matches_alpha (formula ! (index + 1)) \<and>
           toUpperCase_unit (formula ! index) @ toLowerCase_unit (formula ! (index + 1))
             \<in> set ELEMENTS)"
  shows "getAllFormulas formula index =
     map (\<lambda>rest. toUpperCase_unit (formula ! index) @
                  (if fst (collectDigits formula (index + 1) []) \<noteq> []
                   then toSubscript (fst (collectDigits formula (index + 1) [])) else []) @
                  rest)
         (getAllFormulas formula (snd (collectDigits formula (index + 1) [])))"
proof -
  have a: "\<not> length formula \<le> index" using assms(1) by simp
  show ?thesis
    by (subst getAllFormulas_rec)
       (simp only: a assms(2) if_P if_not_P [OF assms(3)] if_False append_Nil)
qed

lemma getAllFormulas_two_letter:
  assumes "index + 1 < length formula" "matches_alpha (formula ! index)"
    and "matches_alpha (formula ! (index + 1))"
    and "toUpperCase_unit (formula ! index) @ toLowerCase_unit (formula ! (index + 1))
           \<in> set ELEMENTS"
  shows "getAllFormulas formula index =
     map (\<lambda>rest. toUpperCase_unit (formula ! index) @
                  toLowerCase_unit (formula ! (index + 1)) @
                  (if fst (collectDigits formula (index + 2) []) \<noteq> []
                   then toSubscript (fst (collectDigits formula (index + 2) [])) else []) @
                  rest)
         (getAllFormulas formula (snd (collectDigits formula (index + 2) []))) @
     map (\<lambda>rest. toUpperCase_unit (formula ! index) @ rest)
         (getAllFormulas formula (index + 1))"
proof -
  have a: "\<not> length formula \<le> index" using assms(1) by simp
  have two: "index + 1 < length formula \<and> matches_alpha (formula ! (index + 1)) \<and>
      toUpperCase_unit (formula ! index) @ toLowerCase_unit (formula ! (index + 1))
        \<in> set ELEMENTS"
    using assms by simp
  have stop: "collectDigits formula (index + 1) [] = ([], index + 1)"
    using assms(3) by (intro collectDigits_stop) (simp add: letter_not_digit)
  show ?thesis
    by (subst getAllFormulas_rec)
       (simp only: a assms(2) if_P [OF two] if_P if_False stop fst_conv snd_conv
          append_Nil simp_thms)
qed

lemma getAllFormulas_starts_upper:
  assumes "index < length formula" "matches_alpha (formula ! index)"
    and "r \<in> set (getAllFormulas formula index)"
  shows "\<exists>t. r = toUpperCase_unit (formula ! index) @ t"
proof (cases "index + 1 < length formula \<and> matches_alpha (formula ! (index + 1)) \<and>
           toUpperCase_unit (formula ! index) @ toLowerCase_unit (formula ! (index + 1))
             \<in> set ELEMENTS")
  case True
  then show ?thesis
    using assms(3) getAllFormulas_two_letter [of index formula] assms(2) by auto
next
  case False
  then show ?thesis
    using assms(3) getAllFormulas_one_letter [OF assms(1,2) False] by auto
qed

lemma distinct_map_prefix: "distinct (map (\<lambda>rest. p @ rest) xs) = distinct xs"
  by (simp add: distinct_map inj_on_def)

lemma distinct_map_Cons: "distinct (map (\<lambda>rest. c # rest) xs) = distinct xs"
  by (simp add: distinct_map inj_on_def)

lemma getAllFormulas_distinct_from: "distinct (getAllFormulas formula index)"
proof (induction index rule: getAllFormulas_index_induct [of formula])
  case (at_end i)
  then show ?case by (subst getAllFormulas_rec) simp
next
  case (other i)
  then show ?case by (subst getAllFormulas_rec) (simp add: distinct_map_Cons)
next
  case (letter i)
  let ?two = "i + 1 < length formula \<and> matches_alpha (formula ! (i + 1)) \<and>
     toUpperCase_unit (formula ! i) @ toLowerCase_unit (formula ! (i + 1)) \<in> set ELEMENTS"
  show ?case
  proof (cases ?two)
    case False
    have "distinct (map (\<lambda>rest. (toUpperCase_unit (formula ! i) @
                  (if fst (collectDigits formula (i + 1) []) \<noteq> []
                   then toSubscript (fst (collectDigits formula (i + 1) [])) else [])) @
                  rest)
         (getAllFormulas formula (snd (collectDigits formula (i + 1) []))))"
      unfolding distinct_map_prefix by (rule letter.IH(1))
    then show ?thesis
      unfolding getAllFormulas_one_letter [OF letter.hyps False] by simp
  next
    case True
    then have lt: "i + 1 < length formula" and al: "matches_alpha (formula ! (i + 1))"
      and el: "toUpperCase_unit (formula ! i) @ toLowerCase_unit (formula ! (i + 1)) \<in> set ELEMENTS"
      by simp_all
    have stop: "collectDigits formula (i + 1) [] = ([], i + 1)"
      using al by (intro collectDigits_stop) (simp add: letter_not_digit)
    have one: "distinct (getAllFormulas formula (i + 1))"
      using letter.IH(1) unfolding stop snd_conv .
    let ?p2 = "toUpperCase_unit (formula ! i) @ toLowerCase_unit (formula ! (i + 1)) @
                  (if fst (collectDigits formula (i + 2) []) \<noteq> []
                   then toSubscript (fst (collectDigits formula (i + 2) [])) else [])"
    let ?A = "map (\<lambda>rest. ?p2 @ rest) (getAllFormulas formula (snd (collectDigits formula (i + 2) [])))"
    let ?B = "map (\<lambda>rest. toUpperCase_unit (formula ! i) @ rest) (getAllFormulas formula (i + 1))"
    have eq: "getAllFormulas formula i = ?A @ ?B"
      using getAllFormulas_two_letter [OF lt letter.hyps(2) al el] by simp
    have dA: "distinct ?A" unfolding distinct_map_prefix by (rule letter.IH(2))
    have dB: "distinct ?B" unfolding distinct_map_prefix by (rule one)
    have disj: "set ?A \<inter> set ?B = {}"
    proof (rule ccontr)
      assume "set ?A \<inter> set ?B \<noteq> {}"
      then obtain r2 r1 where r1: "r1 \<in> set (getAllFormulas formula (i + 1))"
        and e: "?p2 @ r2 = toUpperCase_unit (formula ! i) @ r1"
        by auto
      obtain t where "r1 = toUpperCase_unit (formula ! (i + 1)) @ t"
        using getAllFormulas_starts_upper [OF lt al r1] by blast
      with e lower_upper_differ [OF al] show False by simp
    qed
    show ?thesis unfolding eq distinct_append using dA dB disj by blast
  qed
qed

section \<open>Strings that differ in the case of letters only\<close>

text \<open>
  Two code units are the same up to case when they are equal, or both are letters
  \<open>a-z\<close>, \<open>A-Z\<close> with the same upper-case and the same lower-case form.
\<close>

definition same_up_to_case :: "jschar \<Rightarrow> jschar \<Rightarrow> bool" where
  "same_up_to_case c d =
     (c = d \<or>
      (matches_alpha c \<and> matches_alpha d \<and>
       toUpperCase_unit c = toUpperCase_unit d \<and> toLowerCase_unit c = toLowerCase_unit d))"

lemma same_up_to_case_alpha: "same_up_to_case c d \<Longrightarrow> matches_alpha d = matches_alpha c"
  by (auto simp: same_up_to_case_def)

lemma same_up_to_case_digit: "same_up_to_case c d \<Longrightarrow> matches_digit d = matches_digit c"
  by (auto simp: same_up_to_case_def dest: digits_not_alpha)

lemma same_up_to_case_other: "same_up_to_case c d \<Longrightarrow> \<not> matches_alpha c \<Longrightarrow> d = c"
  by (auto simp: same_up_to_case_def)

lemma same_up_to_case_upper: "same_up_to_case c d \<Longrightarrow> toUpperCase_unit d = toUpperCase_unit c"
  by (auto simp: same_up_to_case_def)

lemma same_up_to_case_lower: "same_up_to_case c d \<Longrightarrow> toLowerCase_unit d = toLowerCase_unit c"
  by (auto simp: same_up_to_case_def)

lemma collectDigits_case:
  "list_all2 same_up_to_case s t \<Longrightarrow> collectDigits t i num = collectDigits s i num"
proof (induction s i num rule: collectDigits.induct)
  case (1 formula digitIndex num)
  note rel = "1.prems"
  have len: "length t = length formula" using rel by (simp add: list_all2_lengthD)
  show ?case
  proof (cases "digitIndex < length formula \<and> matches_digit (formula ! digitIndex)")
    case True
    then have r: "same_up_to_case (formula ! digitIndex) (t ! digitIndex)"
      using rel by (simp add: list_all2_nthD)
    have d: "matches_digit (t ! digitIndex)"
      using True same_up_to_case_digit [OF r] by simp
    have e: "t ! digitIndex = formula ! digitIndex"
      using True same_up_to_case_other [OF r] digits_not_alpha by blast
    have "collectDigits t digitIndex num =
        collectDigits t (digitIndex + 1) (num @ [t ! digitIndex])"
      using True d len by (subst collectDigits.simps) simp
    also have "\<dots> = collectDigits formula (digitIndex + 1) (num @ [formula ! digitIndex])"
      using "1.IH" [OF True rel] by (simp add: e)
    also have "\<dots> = collectDigits formula digitIndex num"
      using True by (subst (2) collectDigits.simps) simp
    finally show ?thesis .
  next
    case False
    have "\<not> (digitIndex < length t \<and> matches_digit (t ! digitIndex))"
    proof
      assume a: "digitIndex < length t \<and> matches_digit (t ! digitIndex)"
      then have "same_up_to_case (formula ! digitIndex) (t ! digitIndex)"
        using rel len by (simp add: list_all2_nthD)
      from same_up_to_case_digit [OF this] a len False show False by simp
    qed
    then show ?thesis using False by (simp add: collectDigits_stop)
  qed
qed

lemma getAllFormulas_case:
  assumes "list_all2 same_up_to_case s t"
  shows "getAllFormulas t index = getAllFormulas s index"
proof (induction index rule: getAllFormulas_index_induct [of s])
  case (at_end i)
  moreover have "length t = length s" using assms by (simp add: list_all2_lengthD)
  ultimately show ?case
    by (subst getAllFormulas_rec, subst (2) getAllFormulas_rec) simp
next
  case (other i)
  have len: "length t = length s" using assms by (simp add: list_all2_lengthD)
  have r: "same_up_to_case (s ! i) (t ! i)"
    using assms other.hyps(1) by (simp add: list_all2_nthD)
  have "t ! i = s ! i" "\<not> matches_alpha (t ! i)"
    using same_up_to_case_other [OF r] same_up_to_case_alpha [OF r] other.hyps(2) by simp_all
  with other len show ?case
    by (subst getAllFormulas_rec, subst (2) getAllFormulas_rec) simp
next
  case (letter i)
  have len: "length t = length s" using assms by (simp add: list_all2_lengthD)
  have r: "same_up_to_case (s ! i) (t ! i)"
    using assms letter.hyps(1) by (simp add: list_all2_nthD)
  have al: "matches_alpha (t ! i)"
    using same_up_to_case_alpha [OF r] letter.hyps(2) by simp
  have up: "toUpperCase_unit (t ! i) = toUpperCase_unit (s ! i)"
    by (rule same_up_to_case_upper [OF r])
  note cd = collectDigits_case [OF assms]
  let ?two = "\<lambda>f. i + 1 < length f \<and> matches_alpha (f ! (i + 1)) \<and>
     toUpperCase_unit (f ! i) @ toLowerCase_unit (f ! (i + 1)) \<in> set ELEMENTS"
  have two_iff: "?two t = ?two s"
  proof (cases "i + 1 < length s")
    case True
    then have r1: "same_up_to_case (s ! (i + 1)) (t ! (i + 1))"
      using assms by (simp add: list_all2_nthD)
    show ?thesis
      using same_up_to_case_alpha [OF r1] same_up_to_case_lower [OF r1] up len by simp
  next
    case False
    then show ?thesis using len by simp
  qed
  show ?case
  proof (cases "?two s")
    case False
    then have nt: "\<not> ?two t" using two_iff by simp
    have lt: "i < length t" using letter.hyps(1) len by simp
    show ?thesis
      unfolding getAllFormulas_one_letter [OF letter.hyps False]
        getAllFormulas_one_letter [OF lt al nt] cd up letter.IH(1) ..
  next
    case True
    then have tt: "?two t" using two_iff by simp
    have r1: "same_up_to_case (s ! (i + 1)) (t ! (i + 1))"
      using assms True by (simp add: list_all2_nthD)
    have lo: "toLowerCase_unit (t ! (i + 1)) = toLowerCase_unit (s ! (i + 1))"
      by (rule same_up_to_case_lower [OF r1])
    have stop: "collectDigits s (i + 1) [] = ([], i + 1)"
      using True by (intro collectDigits_stop) (simp add: letter_not_digit)
    have ih1: "getAllFormulas t (i + 1) = getAllFormulas s (i + 1)"
      using letter.IH(1) unfolding stop snd_conv .
    have eqs: "getAllFormulas s i = 
     map (\<lambda>rest. toUpperCase_unit (s ! i) @
                  toLowerCase_unit (s ! (i + 1)) @
                  (if fst (collectDigits s (i + 2) []) \<noteq> []
                   then toSubscript (fst (collectDigits s (i + 2) [])) else []) @
                  rest)
         (getAllFormulas s (snd (collectDigits s (i + 2) []))) @
     map (\<lambda>rest. toUpperCase_unit (s ! i) @ rest)
         (getAllFormulas s (i + 1))"
      using True letter.hyps(2) by (intro getAllFormulas_two_letter) simp_all
    have eqt: "getAllFormulas t i = 
     map (\<lambda>rest. toUpperCase_unit (t ! i) @
                  toLowerCase_unit (t ! (i + 1)) @
                  (if fst (collectDigits t (i + 2) []) \<noteq> []
                   then toSubscript (fst (collectDigits t (i + 2) [])) else []) @
                  rest)
         (getAllFormulas t (snd (collectDigits t (i + 2) []))) @
     map (\<lambda>rest. toUpperCase_unit (t ! i) @ rest)
         (getAllFormulas t (i + 1))"
      using tt al by (intro getAllFormulas_two_letter) simp_all
    show ?thesis
      unfolding eqs eqt cd up lo ih1 letter.IH(2) ..
  qed
qed

lemma letter_upper_same:
  "matches_alpha c \<Longrightarrow> \<exists>u. toUpperCase_unit c = [u] \<and> same_up_to_case c u"
  by (auto simp: same_up_to_case_def toUpperCase_unit_def toLowerCase_unit_def matches_alpha_def
      word_le_nat_alt word_less_nat_alt unat_sub32 unat_add32)

lemma letter_lower_same:
  "matches_alpha c \<Longrightarrow> \<exists>l. toLowerCase_unit c = [l] \<and> same_up_to_case c l"
  by (auto simp: same_up_to_case_def toUpperCase_unit_def toLowerCase_unit_def matches_alpha_def
      word_le_nat_alt word_less_nat_alt unat_sub32 unat_add32)

lemma toUpperCase_same:
  "\<forall>c\<in>set s. \<not> matches_alpha c \<longrightarrow> toUpperCase_unit c = [c] \<Longrightarrow>
   list_all2 same_up_to_case s (toUpperCase s)"
proof (induction s)
  case Nil
  then show ?case by (simp add: toUpperCase_def)
next
  case (Cons c s)
  have "\<exists>u. toUpperCase_unit c = [u] \<and> same_up_to_case c u"
  proof (cases "matches_alpha c")
    case True
    then show ?thesis by (rule letter_upper_same)
  next
    case False
    with Cons.prems show ?thesis by (simp add: same_up_to_case_def)
  qed
  then obtain u where "toUpperCase_unit c = [u]" "same_up_to_case c u" by blast
  with Cons show ?case by (simp add: toUpperCase_def)
qed

lemma toLowerCase_same:
  "\<forall>c\<in>set s. \<not> matches_alpha c \<longrightarrow> toLowerCase_unit c = [c] \<Longrightarrow>
   list_all2 same_up_to_case s (toLowerCase s)"
proof (induction s)
  case Nil
  then show ?case by (simp add: toLowerCase_def)
next
  case (Cons c s)
  have "\<exists>l. toLowerCase_unit c = [l] \<and> same_up_to_case c l"
  proof (cases "matches_alpha c")
    case True
    then show ?thesis by (rule letter_lower_same)
  next
    case False
    with Cons.prems show ?thesis by (simp add: same_up_to_case_def)
  qed
  then obtain l where "toLowerCase_unit c = [l]" "same_up_to_case c l" by blast
  with Cons show ?case by (simp add: toLowerCase_def)
qed

section \<open>The loop of \<open>formatFormula\<close> against the enumerator\<close>

lemma formatFormula_loop_rec:
  "formatFormula_loop formula i result =
    (if length formula \<le> i then result
     else if matches_alpha (formula ! i) then
       (if i + 1 < length formula \<and> matches_alpha (formula ! (i + 1)) \<and>
           toUpperCase_unit (formula ! i) @ toLowerCase_unit (formula ! (i + 1)) \<in> set ELEMENTS
        then formatFormula_loop formula (snd (collectDigits formula (i + 2) []))
               (result @ [toUpperCase_unit (formula ! i) @ toLowerCase_unit (formula ! (i + 1))] @
                (if fst (collectDigits formula (i + 2) []) \<noteq> []
                 then [toSubscript (fst (collectDigits formula (i + 2) []))] else []))
        else formatFormula_loop formula (snd (collectDigits formula (i + 1) []))
               (result @ [toUpperCase_unit (formula ! i)] @
                (if fst (collectDigits formula (i + 1) []) \<noteq> []
                 then [toSubscript (fst (collectDigits formula (i + 1) []))] else [])))
     else formatFormula_loop formula (i + 1) (result @ [[formula ! i]]))"
proof -
  have up: "toUpperCase [formula ! i] = toUpperCase_unit (formula ! i)"
    by (simp add: toUpperCase_def)
  show ?thesis
    by (subst formatFormula_loop.simps)
       (simp add: Let_def capitalized_units up split_beta)
qed

lemma formatFormula_loop_hd:
  "concat (formatFormula_loop formula index result) =
   concat result @ hd (getAllFormulas formula index)"
proof (induction index arbitrary: result rule: getAllFormulas_index_induct [of formula])
  case (at_end i)
  then show ?case
    by (subst formatFormula_loop_rec, subst getAllFormulas_rec) simp
next
  case (other i)
  then show ?case
    by (subst formatFormula_loop_rec, subst getAllFormulas_rec)
       (simp add: hd_map getAllFormulas_nonempty)
next
  case (letter i)
  then show ?case
    by (subst formatFormula_loop_rec, subst getAllFormulas_rec)
       (simp add: hd_map hd_append getAllFormulas_nonempty)
qed

section \<open>The subscript converter, one unit at a time\<close>

lemma matches_digit_cases:
  "matches_digit c \<longleftrightarrow> c \<in> {0x30, 0x31, 0x32, 0x33, 0x34, 0x35, 0x36, 0x37, 0x38, 0x39}"
proof -
  have "(48 \<le> unat c \<and> unat c \<le> 57) \<longleftrightarrow>
      unat c \<in> {48, 49, 50, 51, 52, 53, 54, 55, 56, 57}"
    by (simp only: insert_iff empty_iff) arith
  then show ?thesis
    by (simp add: matches_digit_def word_le_nat_alt word_unat_eq_iff)
qed

lemma subscript_or_self_unit:
  "subscript_or_self [c] = (if matches_digit c then [c + 0x2050] else [c])"
  by (auto simp: matches_digit_cases subscript_or_self_def SUBSCRIPT_MAP_def js_def)

lemma toSubscript_map:
  "toSubscript s = map (\<lambda>c. if matches_digit c then c + 0x2050 else c) s"
  by (induction s) (simp_all add: toSubscript_def split_units_def subscript_or_self_unit)

lemma subscript_not_digit: "matches_digit c \<Longrightarrow> \<not> matches_digit (c + 0x2050)"
  by (auto simp: matches_digit_cases)

section \<open>The enumerator: results\<close>

text \<open>
  C1: for every input string \<open>s\<close>, \<open>getAllFormulas\<close> with the default starting index 0
  returns a list with at least one candidate, and on the empty string exactly the list
  holding the empty string. \<open>getAllFormulas\<close> is a total function here: its recursion is
  shown to terminate, and it has no failing branch, every read of the formula standing
  under a bound check.
\<close>

theorem getAllFormulas_never_empty:
  "getAllFormulas s 0 \<noteq> [] \<and> getAllFormulas [] 0 = [[]]"
proof
  show "getAllFormulas s 0 \<noteq> []" by (rule getAllFormulas_nonempty)
  show "getAllFormulas [] 0 = [[]]" by (subst getAllFormulas.simps) simp
qed

text \<open>
  C3: for every input made of ASCII digits only, the result is the one-element list
  holding the input itself: no digit is turned into a subscript.
\<close>

theorem getAllFormulas_digits_only:
  assumes "\<forall>c\<in>set s. matches_digit c"
  shows "getAllFormulas s 0 = [s]"
  using getAllFormulas_digits_from [OF assms, of 0] by simp

theorem getAllFormulas_digits_only_witness:
  "list_all matches_digit (js ''123'') \<and> getAllFormulas (js ''123'') 0 = [js ''123'']"
proof -
  have h: "\<forall>c\<in>set (js ''123''). matches_digit c"
    by (simp add: js_def matches_digit_def)
  have "list_all matches_digit (js ''123'')"
    using h by (simp add: list_all_iff)
  then show ?thesis using getAllFormulas_digits_only [OF h] by (rule conjI)
qed

text \<open>
  C2: \<open>getAllFormulas("x")\<close> is exactly \<open>["X"]\<close>, although \<open>X\<close> is not in the element
  table: a single letter, whichever it is, gives its upper-case form as the only
  candidate, with no look-up in the table.
\<close>

theorem getAllFormulas_single_letter:
  "getAllFormulas (js ''x'') 0 = [js ''X''] \<and> js ''X'' \<notin> set ELEMENTS \<and>
   (\<forall>c. matches_alpha c \<longrightarrow> getAllFormulas [c] 0 = [toUpperCase [c]])"
proof (intro conjI allI impI)
  show "getAllFormulas (js ''x'') 0 = [js ''X'']" by code_simp
  show "js ''X'' \<notin> set ELEMENTS" by code_simp
next
  fix c assume a: "matches_alpha c"
  have e: "getAllFormulas [c] (Suc 0) = [[]]"
    by (subst getAllFormulas_rec) simp
  show "getAllFormulas [c] 0 = [toUpperCase [c]]"
    using a by (subst getAllFormulas_rec) (simp add: collectDigits_stop e toUpperCase_def)
qed

theorem getAllFormulas_single_letter_witness:
  "matches_alpha 0x78 \<and> getAllFormulas [0x78] 0 = [[0x58]]"
proof -
  have h: "matches_alpha 0x78" by (simp add: matches_alpha_def)
  have "toUpperCase [0x78] = [0x58]" by (simp add: toUpperCase_def toUpperCase_unit_def)
  with h getAllFormulas_single_letter show ?thesis by simp
qed

text \<open>
  C5: \<open>getAllFormulas("co")\<close> holds both \<open>Co\<close> (the two-letter element, which is in the
  table) and \<open>CO\<close> (two one-letter tokens), and nothing else. \<open>getAllFormulas("h2o")\<close> is
  the single candidate \<open>H\<close>, subscript two, \<open>O\<close>: the digit after \<open>h\<close> rules the
  two-letter branch out, so no second candidate comes from it.
\<close>

theorem getAllFormulas_co_h2o:
  "js ''Co'' \<in> set (getAllFormulas (js ''co'') 0) \<and>
   js ''CO'' \<in> set (getAllFormulas (js ''co'') 0) \<and>
   js ''Co'' \<in> set ELEMENTS \<and>
   getAllFormulas (js ''co'') 0 = [js ''Co'', js ''CO''] \<and>
   getAllFormulas (js ''h2o'') 0 = [[0x48, 0x2082, 0x4F]]"
  by code_simp

text \<open>
  C6: the order of the candidates. The result of one call is the list of the two-letter
  candidates, present exactly when the next two characters are letters whose canonical
  form is in the table, followed by the list of the one-letter candidates. Each of the two
  lists is the result of the recursive call on the remainder, in its own order, with the
  token put in front of every entry; a character that is not a letter is put in front of
  every entry of the recursive result. Nothing is removed, sorted or moved.
\<close>

theorem getAllFormulas_order:
  "getAllFormulas formula index =
    (if length formula \<le> index then [[]]
     else if matches_alpha (formula ! index) then
       (if index + 1 < length formula \<and> matches_alpha (formula ! (index + 1)) \<and>
           toUpperCase [formula ! index] @ toLowerCase [formula ! (index + 1)] \<in> set ELEMENTS
        then
          (let capitalized = toUpperCase [formula ! index] @ toLowerCase [formula ! (index + 1)];
               (num, digitIndex) = collectDigits formula (index + 2) []
           in map (\<lambda>rest. capitalized @ (if num \<noteq> [] then toSubscript num else []) @ rest)
                  (getAllFormulas formula digitIndex))
        else []) @
       (let oneLetter = toUpperCase [formula ! index];
            (num, digitIndex) = collectDigits formula (index + 1) []
        in map (\<lambda>rest. oneLetter @ (if num \<noteq> [] then toSubscript num else []) @ rest)
               (getAllFormulas formula digitIndex))
     else map (\<lambda>rest. formula ! index # rest) (getAllFormulas formula (index + 1)))"
  by (subst getAllFormulas_rec)
     (simp add: Let_def split_beta toUpperCase_def toLowerCase_def)

theorem getAllFormulas_order_witness:
  "getAllFormulas (js ''co'') 0 =
     map (\<lambda>rest. js ''Co'' @ rest) (getAllFormulas (js ''co'') 2) @
     map (\<lambda>rest. js ''C'' @ rest) (getAllFormulas (js ''co'') 1)"
  by (rule trans [OF getAllFormulas_order]) code_simp

text \<open>
  C4, as amended: whenever a string \<open>t\<close> differs from the input \<open>s\<close> in the case of
  letters \<open>a-z\<close>, \<open>A-Z\<close> only (the same length, and at each position the same code unit
  or two such letters that are equal up to case), \<open>getAllFormulas\<close> gives the same list
  of candidates on \<open>t\<close> as on \<open>s\<close>. So the lists for \<open>s\<close>, \<open>s.toUpperCase()\<close> and
  \<open>s.toLowerCase()\<close> agree whenever the conversion leaves every character of \<open>s\<close> other
  than \<open>a-z\<close>, \<open>A-Z\<close> as it is: every ASCII string, and strings such as \<open>cuso4\<close>, middle
  dot, \<open>5h2o\<close>. The enumerator normalises the case of the letters \<open>a-z\<close>, \<open>A-Z\<close> only and
  copies every other character as it is. The first part holds of all strings and needs no
  case table; the parts on \<open>toUpperCase\<close> and \<open>toLowerCase\<close> are stated for code units below
  U+0100, where the two conversions are modelled.
\<close>

theorem getAllFormulas_case_letters_only:
  "(list_all2 same_up_to_case s t \<longrightarrow> getAllFormulas t 0 = getAllFormulas s 0) \<and>
   ((\<forall>c\<in>set s. c < 0x100 \<and> (\<not> matches_alpha c \<longrightarrow> toUpperCase_unit c = [c])) \<longrightarrow>
      getAllFormulas (toUpperCase s) 0 = getAllFormulas s 0) \<and>
   ((\<forall>c\<in>set s. c < 0x100 \<and> (\<not> matches_alpha c \<longrightarrow> toLowerCase_unit c = [c])) \<longrightarrow>
      getAllFormulas (toLowerCase s) 0 = getAllFormulas s 0)"
proof (intro conjI impI)
  assume "list_all2 same_up_to_case s t"
  then show "getAllFormulas t 0 = getAllFormulas s 0" by (rule getAllFormulas_case)
next
  assume "\<forall>c\<in>set s. c < 0x100 \<and> (\<not> matches_alpha c \<longrightarrow> toUpperCase_unit c = [c])"
  then have "list_all2 same_up_to_case s (toUpperCase s)"
    by (intro toUpperCase_same) blast
  then show "getAllFormulas (toUpperCase s) 0 = getAllFormulas s 0" by (rule getAllFormulas_case)
next
  assume "\<forall>c\<in>set s. c < 0x100 \<and> (\<not> matches_alpha c \<longrightarrow> toLowerCase_unit c = [c])"
  then have "list_all2 same_up_to_case s (toLowerCase s)"
    by (intro toLowerCase_same) blast
  then show "getAllFormulas (toLowerCase s) 0 = getAllFormulas s 0" by (rule getAllFormulas_case)
qed

theorem getAllFormulas_case_letters_only_witness:
  "list_all2 same_up_to_case [0x48, 0x2082, 0x4F] [0x68, 0x2082, 0x6F] \<and>
   getAllFormulas [0x68, 0x2082, 0x6F] 0 = getAllFormulas [0x48, 0x2082, 0x4F] 0 \<and>
   toUpperCase (js ''cuso4'' @ [0xB7] @ js ''5h2o'') = js ''CUSO4'' @ [0xB7] @ js ''5H2O'' \<and>
   getAllFormulas (js ''CUSO4'' @ [0xB7] @ js ''5H2O'') 0 =
     getAllFormulas (js ''cuso4'' @ [0xB7] @ js ''5h2o'') 0 \<and>
   toLowerCase (js ''CuSO4'' @ [0xB7] @ js ''5H2O'') = js ''cuso4'' @ [0xB7] @ js ''5h2o'' \<and>
   getAllFormulas (js ''cuso4'' @ [0xB7] @ js ''5h2o'') 0 =
     getAllFormulas (js ''CuSO4'' @ [0xB7] @ js ''5H2O'') 0"
proof -
  have r: "list_all2 same_up_to_case [0x48, 0x2082, 0x4F] [0x68, 0x2082, 0x6F]"
    by code_simp
  have hu: "\<forall>c\<in>set (js ''cuso4'' @ [0xB7] @ js ''5h2o'').
      c < 0x100 \<and> (\<not> matches_alpha c \<longrightarrow> toUpperCase_unit c = [c])"
    by code_simp
  have hl: "\<forall>c\<in>set (js ''CuSO4'' @ [0xB7] @ js ''5H2O'').
      c < 0x100 \<and> (\<not> matches_alpha c \<longrightarrow> toLowerCase_unit c = [c])"
    by code_simp
  have u: "toUpperCase (js ''cuso4'' @ [0xB7] @ js ''5h2o'') = js ''CUSO4'' @ [0xB7] @ js ''5H2O''"
    by code_simp
  have l: "toLowerCase (js ''CuSO4'' @ [0xB7] @ js ''5H2O'') = js ''cuso4'' @ [0xB7] @ js ''5h2o''"
    by code_simp
  have a: "getAllFormulas [0x68, 0x2082, 0x6F] 0 = getAllFormulas [0x48, 0x2082, 0x4F] 0"
    using getAllFormulas_case_letters_only [of "[0x48, 0x2082, 0x4F]" "[0x68, 0x2082, 0x6F]"] r
    by blast
  have b: "getAllFormulas (toUpperCase (js ''cuso4'' @ [0xB7] @ js ''5h2o'')) 0 =
     getAllFormulas (js ''cuso4'' @ [0xB7] @ js ''5h2o'') 0"
    using getAllFormulas_case_letters_only [of "js ''cuso4'' @ [0xB7] @ js ''5h2o''"] hu
    by blast
  have c: "getAllFormulas (toLowerCase (js ''CuSO4'' @ [0xB7] @ js ''5H2O'')) 0 =
     getAllFormulas (js ''CuSO4'' @ [0xB7] @ js ''5H2O'') 0"
    using getAllFormulas_case_letters_only [of "js ''CuSO4'' @ [0xB7] @ js ''5H2O''"] hl
    by blast
  show ?thesis
    using r a b [unfolded u] c [unfolded l] u l by blast
qed

text \<open>
  C4 as stated, for every string, fails where the conversion turns a character that is
  not a letter \<open>a-z\<close>, \<open>A-Z\<close> into such letters: \<open>o\<close> followed by sharp s (U+00DF) has
  the single candidate \<open>O\<close>, sharp s, while its upper case \<open>OSS\<close> has the two candidates
  \<open>OsS\<close> and \<open>OSS\<close>.
\<close>

theorem getAllFormulas_case_counterexample:
  "toUpperCase [0x6F, 0xDF] = js ''OSS'' \<and>
   getAllFormulas [0x6F, 0xDF] 0 = [[0x4F, 0xDF]] \<and>
   getAllFormulas (toUpperCase [0x6F, 0xDF]) 0 = [js ''OsS'', js ''OSS''] \<and>
   getAllFormulas (toUpperCase [0x6F, 0xDF]) 0 \<noteq> getAllFormulas [0x6F, 0xDF] 0 \<and>
   length (getAllFormulas (toUpperCase [0x6F, 0xDF]) 0) \<noteq> length (getAllFormulas [0x6F, 0xDF] 0)"
  by code_simp

text \<open>
  C10: the candidates of one call are pairwise distinct. Where both branches apply, a
  two-letter candidate has the lower-case second letter where every one-letter candidate
  has that letter in upper case, and putting a token in front of distinct remainders
  keeps them distinct.
\<close>

theorem getAllFormulas_distinct: "distinct (getAllFormulas s 0)"
  by (rule getAllFormulas_distinct_from)

text \<open>
  C8: the best-guess formatter \<open>formatFormula\<close> returns the first candidate of
  \<open>getAllFormulas\<close> on the same input, and so one of its candidates: the two take the
  same tokens and convert the same digits.
\<close>

theorem formatFormula_is_first_candidate:
  "formatFormula s = hd (getAllFormulas s 0) \<and> formatFormula s \<in> set (getAllFormulas s 0)"
proof -
  have "formatFormula s = hd (getAllFormulas s 0)"
    by (simp add: formatFormula_def formatFormula_loop_hd)
  then show ?thesis
    by (simp add: getAllFormulas_nonempty)
qed

section \<open>The subscript converter: results\<close>

text \<open>
  C7: \<open>toSubscript\<close> works on each character by itself: it maps the empty string to the
  empty string, distributes over concatenation, replaces each ASCII digit by the
  subscript glyph with the same value (U+2080 for \<open>0\<close> up to U+2089 for \<open>9\<close>, that is the
  code unit plus 0x2050) and keeps every other character. Its output holds no ASCII
  digit, so applying it to its own output changes nothing.
\<close>

theorem toSubscript_charwise_idempotent:
  "toSubscript [] = [] \<and>
   toSubscript (s @ t) = toSubscript s @ toSubscript t \<and>
   toSubscript s = map (\<lambda>c. if matches_digit c then c + 0x2050 else c) s \<and>
   toSubscript (js ''0123456789'') =
     [0x2080, 0x2081, 0x2082, 0x2083, 0x2084, 0x2085, 0x2086, 0x2087, 0x2088, 0x2089] \<and>
   list_all (\<lambda>c. \<not> matches_digit c) (toSubscript s) \<and>
   toSubscript (toSubscript s) = toSubscript s"
proof (intro conjI)
  show "toSubscript [] = []" by (simp add: toSubscript_map)
  show "toSubscript (s @ t) = toSubscript s @ toSubscript t" by (simp add: toSubscript_map)
  show "toSubscript s = map (\<lambda>c. if matches_digit c then c + 0x2050 else c) s"
    by (rule toSubscript_map)
  show "toSubscript (js ''0123456789'') =
     [0x2080, 0x2081, 0x2082, 0x2083, 0x2084, 0x2085, 0x2086, 0x2087, 0x2088, 0x2089]"
    by (simp add: toSubscript_map js_def matches_digit_def)
  show "list_all (\<lambda>c. \<not> matches_digit c) (toSubscript s)"
    by (auto simp: toSubscript_map list_all_iff subscript_not_digit)
  show "toSubscript (toSubscript s) = toSubscript s"
    by (simp add: toSubscript_map subscript_not_digit)
qed

section \<open>The copy operation: results\<close>

lemma copyFormula_length:
  "length (history s) \<le> 5 \<Longrightarrow> length (history (copyFormula ok q f s)) \<le> 5"
  by (simp add: copyFormula_def showFeedback_def Let_def)

lemma take_append_take: "take n (xs @ take n ys) = take n (xs @ ys)"
  by (simp add: min_def)

lemma copyFormula_take:
  "length (history s) \<le> 5 \<Longrightarrow>
   history (copyFormula ok q f s) =
     (if ok then take 5 (\<lparr>original = q, formatted = f\<rparr> # history s) else history s)"
proof (cases "length (history s) = 5")
  case True
  then have "butlast (history s) = take 4 (history s)" and "history s \<noteq> []"
    by (auto simp: butlast_conv_take)
  with True show ?thesis
    by (simp add: copyFormula_def showFeedback_def Let_def)
next
  case False
  assume "length (history s) \<le> 5"
  with False show ?thesis
    by (simp add: copyFormula_def showFeedback_def Let_def)
qed

lemma run_copies_history:
  "length (history s) \<le> 5 \<Longrightarrow>
   history (run_copies cs s) = take 5 (rev (recorded cs) @ history s)"
proof (induction cs arbitrary: s)
  case Nil
  then show ?case by simp
next
  case (Cons c cs)
  obtain ok q f where c: "c = (ok, q, f)" by (cases c)
  have len: "length (history (copyFormula ok q f s)) \<le> 5"
    using Cons.prems by (rule copyFormula_length)
  have "history (run_copies (c # cs) s) =
      take 5 (rev (recorded cs) @ history (copyFormula ok q f s))"
    unfolding c run_copies.simps by (rule Cons.IH [OF len])
  also have "\<dots> = take 5 (rev (recorded (c # cs)) @ history s)"
    unfolding c copyFormula_take [OF Cons.prems]
    by (cases ok) (simp_all add: take_append_take del: take_Cons_numeral)
  finally show ?case .
qed

text \<open>
  C9: the effect of \<open>copyFormula\<close> on the history. When the clipboard write fails, the
  history is unchanged and the failure message is shown. When it succeeds, the entry
  (query, formula) is put in front, and the last entry is dropped when the history had
  five entries already; from a history of at most five entries this gives the five most
  recent ones, most recent first. From the empty history of the page's start, every
  sequence of copy attempts leaves the entries of the last five successful attempts,
  most recent first, and so never more than five.
\<close>

theorem copyFormula_history:
  "history (copyFormula False q f s) = history s \<and>
   feedback (copyFormula False q f s) = Some (js ''Failed to copy. Please try again.'', Error) \<and>
   history (copyFormula True q f s) =
     \<lparr>original = q, formatted = f\<rparr> #
       (if length (history s) \<ge> 5 then butlast (history s) else history s) \<and>
   (length (history s) \<le> 5 \<longrightarrow>
      history (copyFormula True q f s) = take 5 (\<lparr>original = q, formatted = f\<rparr> # history s) \<and>
      length (history (copyFormula ok q f s)) \<le> 5) \<and>
   history (run_copies cs initial_state) = take 5 (rev (recorded cs)) \<and>
   length (history (run_copies cs initial_state)) \<le> 5"
proof (intro conjI impI)
  show "history (copyFormula False q f s) = history s"
    by (simp add: copyFormula_def showFeedback_def)
  show "feedback (copyFormula False q f s) = Some (js ''Failed to copy. Please try again.'', Error)"
    by (simp add: copyFormula_def showFeedback_def)
  show "history (copyFormula True q f s) =
     \<lparr>original = q, formatted = f\<rparr> #
       (if length (history s) \<ge> 5 then butlast (history s) else history s)"
    by (auto simp: copyFormula_def showFeedback_def Let_def)
  have init: "length (history initial_state) \<le> 5" by (simp add: initial_state_def)
  show run: "history (run_copies cs initial_state) = take 5 (rev (recorded cs))"
    using run_copies_history [OF init, of cs] by (simp add: initial_state_def)
  show "length (history (run_copies cs initial_state)) \<le> 5"
    unfolding run by simp
next
  assume le: "length (history s) \<le> 5"
  show "length (history (copyFormula ok q f s)) \<le> 5"
    using le by (rule copyFormula_length)
  show "history (copyFormula True q f s) = take 5 (\<lparr>original = q, formatted = f\<rparr> # history s)"
    using copyFormula_take [OF le, of True q f] by simp
qed

theorem copyFormula_history_witness:
  "length (history initial_state) \<le> 5 \<and>
   history (copyFormula True (js ''h2o'') [0x48, 0x2082, 0x4F] initial_state) =
     [\<lparr>original = js ''h2o'', formatted = [0x48, 0x2082, 0x4F]\<rparr>] \<and>
   length (history (copyFormula True (js ''h2o'') [0x48, 0x2082, 0x4F] initial_state)) \<le> 5"
proof -
  have h: "length (history initial_state) \<le> 5" by (simp add: initial_state_def)
  have e: "history initial_state = []" by (simp add: initial_state_def)
  from copyFormula_history [of "js ''h2o''" "[0x48, 0x2082, 0x4F]" initial_state True] h
  show ?thesis by (simp add: e)
qed

end
